theory Spec2Isabelle
  imports Complex_Main "HOL-Library.Log_Nat"
begin

section \<open>ECMAScript Number values\<close>

text \<open>
  The library computes on JavaScript Numbers: IEEE-754 binary64 values with a single
  not-a-number value, two infinities and two zeros. A finite value is kept as sign,
  significand and exponent: \<open>Fin s m e\<close> stands for \<open>(-1)^s * m * 2^e\<close> (the sign is
  \<open>True\<close> for negative numbers).
\<close>

datatype number = NaN | Inf bool | Fin bool nat int

text \<open>
  The binary64 values: the significand has at most 53 bits, the exponent of the unit in
  the last place lies between -1074 and 971, and a significand below \<open>2^52\<close> (a
  subnormal, or zero) sits at the least exponent.
\<close>

definition binary64 :: "number \<Rightarrow> bool" where
  "binary64 x =
     (case x of
        Fin s m e \<Rightarrow> m < 2 ^ 53 \<and> - 1074 \<le> e \<and> e \<le> 971 \<and> (m < 2 ^ 52 \<longrightarrow> e = - 1074)
      | _ \<Rightarrow> True)"

definition is_zero :: "number \<Rightarrow> bool" where
  "is_zero x = (case x of Fin s m e \<Rightarrow> m = 0 | _ \<Rightarrow> False)"

definition is_nan :: "number \<Rightarrow> bool" where
  "is_nan x = (case x of NaN \<Rightarrow> True | _ \<Rightarrow> False)"

definition non_finite :: "number \<Rightarrow> bool" where
  "non_finite x = (case x of Fin s m e \<Rightarrow> False | _ \<Rightarrow> True)"

definition signed :: "bool \<Rightarrow> nat \<Rightarrow> int" where
  "signed s m = (if s then - int m else int m)"

text \<open>The rational value of a finite number (0 for the others, which have none).\<close>

definition valof :: "number \<Rightarrow> rat" where
  "valof x = (case x of Fin s m e \<Rightarrow> of_int (signed s m) * 2 powi e | _ \<Rightarrow> 0)"

text \<open>\<open>near x c t\<close>: x is finite and at most t away from c.\<close>

definition near :: "number \<Rightarrow> rat \<Rightarrow> rat \<Rightarrow> bool" where
  "near x c t = (\<not> non_finite x \<and> \<bar>valof x - c\<bar> \<le> t)"

subsection \<open>Rounding to nearest, ties to even\<close>

text \<open>
  A quotient \<open>q\<close> with remainder \<open>r\<close> of a division by \<open>d\<close>, rounded to the nearest
  natural number, a tie to the even one.
\<close>

definition round_up :: "nat \<Rightarrow> nat \<Rightarrow> nat \<Rightarrow> nat" where
  "round_up q r d =
     (if 2 * r < d then q
      else if d < 2 * r then q + 1
      else if even q then q else q + 1)"

definition round_even :: "nat \<Rightarrow> nat \<Rightarrow> nat" where
  "round_even n d = round_up (n div d) (n mod d) d"

text \<open>Beyond the largest exponent the result is an infinity.\<close>

definition finite_or_inf :: "bool \<Rightarrow> nat \<Rightarrow> int \<Rightarrow> number" where
  "finite_or_inf s m e = (if 971 < e then Inf s else Fin s m e)"

text \<open>A rounded significand may reach \<open>2^53\<close>, which is \<open>2^52\<close> at the next exponent.\<close>

definition pack :: "bool \<Rightarrow> nat \<Rightarrow> int \<Rightarrow> number" where
  "pack s m e =
     (if m = 2 ^ 53 then finite_or_inf s (2 ^ 52) (e + 1) else finite_or_inf s m e)"

text \<open>
  The value \<open>v = (n / d) * 2^e\<close> with \<open>n, d > 0\<close> lies between \<open>2^(k-1)\<close> and
  \<open>2^(k+1)\<close> for \<open>k\<close> the difference of the bit lengths plus \<open>e\<close>; one comparison
  gives the exponent of its leading bit.
\<close>

definition lead_exp :: "nat \<Rightarrow> nat \<Rightarrow> int \<Rightarrow> int \<Rightarrow> int" where
  "lead_exp n d e k = (if d * 2 ^ nat (k - e) \<le> n * 2 ^ nat (e - k) then k else k - 1)"

definition floor_log2 :: "nat \<Rightarrow> nat \<Rightarrow> int \<Rightarrow> int" where
  "floor_log2 n d e = lead_exp n d e (bitlen (int n) - bitlen (int d) + e)"

text \<open>\<open>v\<close> in units of \<open>2^u\<close>, rounded to a natural number of such units.\<close>

definition round_at :: "bool \<Rightarrow> nat \<Rightarrow> nat \<Rightarrow> int \<Rightarrow> int \<Rightarrow> number" where
  "round_at s n d e u = pack s (round_even (n * 2 ^ nat (e - u)) (d * 2 ^ nat (u - e))) u"

text \<open>
  \<open>round_ratio s n d e\<close> is the Number nearest to \<open>(-1)^s * (n / d) * 2^e\<close>, for
  \<open>d > 0\<close>. The unit in the last place is 52 binary places below the leading bit, but
  never below \<open>2^-1074\<close>.
\<close>

definition round_ratio :: "bool \<Rightarrow> nat \<Rightarrow> nat \<Rightarrow> int \<Rightarrow> number" where
  "round_ratio s n d e =
     (if n = 0 then Fin s 0 (- 1074)
      else round_at s n d e (max (floor_log2 n d e - 52) (- 1074)))"

text \<open>The Number nearest to the integer \<open>c\<close> times \<open>2^g\<close>; \<open>z\<close> is the sign of a zero.\<close>

definition round_int :: "bool \<Rightarrow> int \<Rightarrow> int \<Rightarrow> number" where
  "round_int z c g =
     (if c = 0 then Fin z 0 (- 1074) else round_ratio (c < 0) (nat \<bar>c\<bar>) 1 g)"

text \<open>A decimal literal with digits \<open>n\<close>, \<open>k\<close> of them after the point: \<open>dec 225 1\<close> is 22.5.\<close>

definition dec :: "nat \<Rightarrow> nat \<Rightarrow> number" where
  "dec n k = round_ratio False n (10 ^ k) 0"

subsection \<open>Arithmetic\<close>

fun js_neg :: "number \<Rightarrow> number" where
  "js_neg NaN = NaN"
| "js_neg (Inf s) = Inf (\<not> s)"
| "js_neg (Fin s m e) = Fin (\<not> s) m e"

text \<open>
  A finite number as an integer number of units \<open>2^g\<close>, for \<open>g\<close> at most its exponent.
  Two finite numbers are added and compared in units of their smaller exponent. An exact
  sum of zero is \<open>+0\<close>, unless both operands are negative (then both are \<open>-0\<close>).
\<close>

definition scaled :: "bool \<Rightarrow> nat \<Rightarrow> int \<Rightarrow> int \<Rightarrow> int" where
  "scaled s m e g = signed s (m * 2 ^ nat (e - g))"

fun js_add :: "number \<Rightarrow> number \<Rightarrow> number" where
  "js_add NaN y = NaN"
| "js_add x NaN = NaN"
| "js_add (Inf s) (Inf t) = (if s = t then Inf s else NaN)"
| "js_add (Inf s) (Fin t n f) = Inf s"
| "js_add (Fin s m e) (Inf t) = Inf t"
| "js_add (Fin s m e) (Fin t n f) =
     round_int (s \<and> t) (scaled s m e (min e f) + scaled t n f (min e f)) (min e f)"

definition js_sub :: "number \<Rightarrow> number \<Rightarrow> number" where
  "js_sub x y = js_add x (js_neg y)"

fun js_mul :: "number \<Rightarrow> number \<Rightarrow> number" where
  "js_mul NaN y = NaN"
| "js_mul x NaN = NaN"
| "js_mul (Inf s) (Inf t) = Inf (s \<noteq> t)"
| "js_mul (Inf s) (Fin t n f) = (if n = 0 then NaN else Inf (s \<noteq> t))"
| "js_mul (Fin s m e) (Inf t) = (if m = 0 then NaN else Inf (s \<noteq> t))"
| "js_mul (Fin s m e) (Fin t n f) = round_ratio (s \<noteq> t) (m * n) 1 (e + f)"

fun js_div :: "number \<Rightarrow> number \<Rightarrow> number" where
  "js_div NaN y = NaN"
| "js_div x NaN = NaN"
| "js_div (Inf s) (Inf t) = NaN"
| "js_div (Inf s) (Fin t n f) = Inf (s \<noteq> t)"
| "js_div (Fin s m e) (Inf t) = Fin (s \<noteq> t) 0 (- 1074)"
| "js_div (Fin s m e) (Fin t n f) =
     (if n = 0 then (if m = 0 then NaN else Inf (s \<noteq> t))
      else round_ratio (s \<noteq> t) m n (e - f))"

text \<open>The integer square root, two bits at a time.\<close>

definition isqrt_step :: "nat \<Rightarrow> nat \<Rightarrow> nat" where
  "isqrt_step r n = (if (r + 1) * (r + 1) \<le> n then r + 1 else r)"

fun isqrt :: "nat \<Rightarrow> nat" where
  "isqrt n = (if n < 2 then n else isqrt_step (2 * isqrt (n div 4)) n)"

declare isqrt.simps [simp del]

text \<open>
  The root \<open>r\<close> of \<open>N\<close> with one more bit below it, set when the root is inexact: it
  decides the rounding as the digits of the true root would.
\<close>

definition root_sticky :: "nat \<Rightarrow> nat \<Rightarrow> nat" where
  "root_sticky r N = 2 * r + (if r * r = N then 0 else 1)"

definition sqrt_round :: "nat \<Rightarrow> int \<Rightarrow> number" where
  "sqrt_round N k = round_ratio False (root_sticky (isqrt N) N) 2 k"

text \<open>
  \<open>Math.sqrt\<close>: the significand is shifted up by 108 or 109 bits to an even exponent,
  so that its integer root has at least 54 bits.
\<close>

fun js_sqrt :: "number \<Rightarrow> number" where
  "js_sqrt NaN = NaN"
| "js_sqrt (Inf s) = (if s then NaN else Inf s)"
| "js_sqrt (Fin s m e) =
     (if m = 0 then Fin s m e
      else if s then NaN
      else sqrt_round (m * 2 ^ nat (108 + e mod 2)) ((e - (108 + e mod 2)) div 2))"

subsection \<open>Comparison\<close>

text \<open>
  \<open>js_lt\<close> is the relational comparison of two Numbers: \<open>None\<close> is its
  \<open>undefined\<close>, the answer when an operand is not-a-number.
\<close>

fun js_lt :: "number \<Rightarrow> number \<Rightarrow> bool option" where
  "js_lt NaN y = None"
| "js_lt x NaN = None"
| "js_lt (Inf s) (Inf t) = Some (s \<and> \<not> t)"
| "js_lt (Inf s) (Fin t n f) = Some s"
| "js_lt (Fin s m e) (Inf t) = Some (\<not> t)"
| "js_lt (Fin s m e) (Fin t n f) = Some (scaled s m e (min e f) < scaled t n f (min e f))"

text \<open>\<open>x <= y\<close> is false when \<open>y < x\<close> is true or undefined.\<close>

definition js_le :: "number \<Rightarrow> number \<Rightarrow> bool" where
  "js_le x y = (case js_lt y x of Some False \<Rightarrow> True | _ \<Rightarrow> False)"

text \<open>\<open>x === y\<close> on Numbers: never true of not-a-number, and true of the two zeros.\<close>

fun js_strict_eq :: "number \<Rightarrow> number \<Rightarrow> bool" where
  "js_strict_eq NaN y = False"
| "js_strict_eq x NaN = False"
| "js_strict_eq (Inf s) (Inf t) = (s = t)"
| "js_strict_eq (Inf s) (Fin t n f) = False"
| "js_strict_eq (Fin s m e) (Inf t) = False"
| "js_strict_eq (Fin s m e) (Fin t n f) = (scaled s m e (min e f) = scaled t n f (min e f))"

section \<open>The financial ratios\<close>

definition calculateSharpeRatio :: "number \<Rightarrow> number \<Rightarrow> number \<Rightarrow> number" where
  "calculateSharpeRatio riskFreeRate averageReturn standardDeviation =
     (if js_strict_eq standardDeviation (dec 0 0) then NaN
      else js_div (js_sub averageReturn riskFreeRate) standardDeviation)"

definition calculateTreynorRatio :: "number \<Rightarrow> number \<Rightarrow> number \<Rightarrow> number" where
  "calculateTreynorRatio averageReturn marketReturn beta =
     (if js_strict_eq beta (dec 0 0) then NaN
      else js_div (js_sub averageReturn marketReturn) beta)"

definition calculateSortinoRatio :: "number \<Rightarrow> number \<Rightarrow> number \<Rightarrow> number" where
  "calculateSortinoRatio riskFreeRate averageReturn downsideDeviation =
     (if js_strict_eq downsideDeviation (dec 0 0) then NaN
      else js_div (js_sub averageReturn riskFreeRate) downsideDeviation)"

definition calculateEnterpriseValueToEBITDA :: "number \<Rightarrow> number \<Rightarrow> number" where
  "calculateEnterpriseValueToEBITDA enterpriseValue ebitda =
     (if js_strict_eq ebitda (dec 0 0) then NaN
      else js_div enterpriseValue ebitda)"

definition calculatePriceToBook :: "number \<Rightarrow> number \<Rightarrow> number" where
  "calculatePriceToBook stockPrice bookValuePerShare =
     (if js_strict_eq bookValuePerShare (dec 0 0) then NaN
      else js_div stockPrice bookValuePerShare)"

definition calculateGrahamNumber :: "number \<Rightarrow> number \<Rightarrow> number \<Rightarrow> number" where
  "calculateGrahamNumber earningsPerShare epsGrowthRate bondYield =
     (if js_strict_eq earningsPerShare (dec 0 0) \<or> js_strict_eq bondYield (dec 0 0) then NaN
      else
        let squareRoot = js_sqrt (dec 225 1)
        in js_div (js_mul (js_mul earningsPerShare (js_add (dec 1 0) epsGrowthRate)) squareRoot)
             bondYield)"

definition calculateExpectedReturnCAPM :: "number \<Rightarrow> number \<Rightarrow> number \<Rightarrow> number" where
  "calculateExpectedReturnCAPM riskFreeRate marketReturn beta =
     js_add riskFreeRate (js_mul beta (js_sub marketReturn riskFreeRate))"

definition calculateAltmanZScore ::
  "number \<Rightarrow> number \<Rightarrow> number \<Rightarrow> number \<Rightarrow> number \<Rightarrow> number" where
  "calculateAltmanZScore workingCapital retainedEarnings totalAssets marketValueEquity
       totalLiabilities =
     (let numerator =
            js_add
              (js_add
                 (js_add (js_div (js_mul (dec 12 1) workingCapital) totalAssets)
                    (js_div (js_mul (dec 14 1) retainedEarnings) totalAssets))
                 (js_div (js_mul (dec 33 1) marketValueEquity) totalLiabilities))
              (js_div (js_mul (dec 6 1) (js_sub totalAssets totalLiabilities)) totalLiabilities);
          denominator = js_div marketValueEquity totalLiabilities
      in js_div numerator denominator)"

definition calculateGordonIntrinsicValueDDM :: "number \<Rightarrow> number \<Rightarrow> number \<Rightarrow> number" where
  "calculateGordonIntrinsicValueDDM currentDividend growthRate discountRate =
     (if js_le discountRate growthRate then NaN
      else js_div currentDividend (js_sub discountRate growthRate))"


section \<open>The Altman formula as the specification writes it\<close>

text \<open>
  The specification gives the numerator as
  \<open>1.2*(workingCapital/totalAssets) + 1.4*(retainedEarnings/totalAssets) +
  3.3*(marketValueEquity/totalLiabilities) + 0.6*((totalAssets - totalLiabilities)/totalLiabilities)\<close>:
  each quotient is taken first and then weighted. The source weights first and divides
  after; the two orders round differently.
\<close>

definition altman_as_specified ::
  "number \<Rightarrow> number \<Rightarrow> number \<Rightarrow> number \<Rightarrow> number \<Rightarrow> number" where
  "altman_as_specified workingCapital retainedEarnings totalAssets marketValueEquity
       totalLiabilities =
     (let numerator =
            js_add
              (js_add
                 (js_add (js_mul (dec 12 1) (js_div workingCapital totalAssets))
                    (js_mul (dec 14 1) (js_div retainedEarnings totalAssets)))
                 (js_mul (dec 33 1) (js_div marketValueEquity totalLiabilities)))
              (js_mul (dec 6 1) (js_div (js_sub totalAssets totalLiabilities) totalLiabilities));
          denominator = js_div marketValueEquity totalLiabilities
      in js_div numerator denominator)"

section \<open>Properties of the Number operations\<close>

lemma dec_zero: "dec 0 0 = Fin False 0 (- 1074)"
  by (simp add: dec_def round_ratio_def)

lemma scaled_eq_0: "scaled s m e g = 0 \<longleftrightarrow> m = 0"
  by (simp add: scaled_def signed_def)

lemma signed_not: "signed (\<not> s) m = - signed s m"
  by (simp add: signed_def)

lemma is_nan_iff: "is_nan x \<longleftrightarrow> x = NaN"
  by (cases x) (simp_all add: is_nan_def)

text \<open>The guard \<open>x === 0\<close> holds of the two zeros and of nothing else.\<close>

lemma js_strict_eq_zero: "js_strict_eq x (dec 0 0) = is_zero x"
  by (cases x) (simp_all add: dec_zero is_zero_def scaled_eq_0 scaled_def [of False 0] signed_def)

lemma js_strict_eq_NaN: "\<not> js_strict_eq NaN x" "\<not> js_strict_eq x NaN"
  by (cases x; simp)+

text \<open>Not-a-number is absorbing in every arithmetic operation, and compares false.\<close>

lemma js_add_NaN: "js_add NaN y = NaN" "js_add x NaN = NaN"
  by (cases x; simp)+

lemma js_sub_NaN: "js_sub NaN y = NaN" "js_sub x NaN = NaN"
  by (simp_all add: js_sub_def js_add_NaN)

lemma js_mul_NaN: "js_mul NaN y = NaN" "js_mul x NaN = NaN"
  by (cases x; simp)+

lemma js_div_NaN: "js_div NaN y = NaN" "js_div x NaN = NaN"
  by (cases x; simp)+

lemma js_lt_NaN: "js_lt NaN y = None" "js_lt x NaN = None"
  by (cases x; simp)+

lemma js_le_NaN: "\<not> js_le NaN y" "\<not> js_le x NaN"
  by (simp_all add: js_le_def js_lt_NaN)

lemma js_le_finite:
  "js_le (Fin s m e) (Fin t n f) \<longleftrightarrow> js_lt (Fin t n f) (Fin s m e) \<noteq> Some True"
  by (simp add: js_le_def split: bool.splits)

text \<open>Infinities and not-a-number stay so through sums and quotients.\<close>

lemma non_finite_add: "non_finite x \<or> non_finite y \<Longrightarrow> non_finite (js_add x y)"
  by (cases x; cases y) (simp_all add: non_finite_def)

lemma non_finite_div_left: "non_finite x \<Longrightarrow> non_finite (js_div x y)"
  by (cases x; cases y) (simp_all add: non_finite_def)

lemma non_finite_div_zero: "is_zero y \<Longrightarrow> non_finite (js_div x y)"
  by (cases x; cases y) (simp_all add: non_finite_def is_zero_def)

lemma div_non_finite_both: "non_finite x \<Longrightarrow> non_finite y \<Longrightarrow> js_div x y = NaN"
  by (cases x; cases y) (simp_all add: non_finite_def)

subsection \<open>Rounding never yields not-a-number, and no nonzero integer rounds to zero\<close>

lemma round_ratio_not_NaN: "round_ratio s n d e \<noteq> NaN"
  by (simp add: round_ratio_def round_at_def pack_def finite_or_inf_def)

lemma round_even_ge: "n div d \<le> round_even n d"
  by (simp add: round_even_def round_up_def)

lemma pack_zero: "is_zero (pack s m e) \<longleftrightarrow> m = 0 \<and> e \<le> 971"
  by (auto simp: pack_def finite_or_inf_def is_zero_def)

lemma bitlen_lower: "0 < n \<Longrightarrow> 2 ^ nat (bitlen (int n) - 1) \<le> n"
proof -
  assume "0 < n"
  then have "(2::int) ^ nat (bitlen (int n) - 1) \<le> int n"
    using bitlen_bounds [of "int n"] by simp
  then show ?thesis
    by (metis of_nat_le_iff of_nat_numeral of_nat_power)
qed

text \<open>
  Gradual underflow: a nonzero multiple of \<open>2^e\<close> with \<open>e\<close> at least -1074 is at least
  the smallest subnormal, so it does not round to zero.
\<close>

lemma round_integer_nonzero:
  assumes "0 < n" and "- 1074 \<le> e"
  shows "\<not> is_zero (round_ratio s n 1 e)"
proof -
  define fl where "fl = floor_log2 n 1 e"
  define u where "u = max (fl - 52) (- 1074)"
  have r: "round_ratio s n 1 e = pack s (round_even (n * 2 ^ nat (e - u)) (1 * 2 ^ nat (u - e))) u"
    using assms(1) by (simp add: round_ratio_def round_at_def fl_def u_def)
  have b1: "bitlen 1 = 1"
    by (simp add: compute_bitlen)
  have fl_le: "fl \<le> bitlen (int n) - 1 + e"
    by (simp add: fl_def floor_log2_def lead_exp_def b1)
  have "0 < (n * 2 ^ nat (e - u)) div (1 * 2 ^ nat (u - e))"
  proof (cases "u \<le> e")
    case True
    then show ?thesis using assms(1) by simp
  next
    case False
    then have "u = fl - 52" using assms(2) by (simp add: u_def max_def split: if_splits)
    then have "u - e \<le> bitlen (int n) - 1"
      using fl_le by simp
    then have "(2::nat) ^ nat (u - e) \<le> 2 ^ nat (bitlen (int n) - 1)"
      by (intro power_increasing) simp_all
    then have "2 ^ nat (u - e) \<le> n"
      using bitlen_lower [OF assms(1)] by linarith
    moreover have "nat (e - u) = 0" using False by simp
    ultimately show ?thesis
      by (simp add: div_greater_zero_iff)
  qed
  then have "0 < round_even (n * 2 ^ nat (e - u)) (1 * 2 ^ nat (u - e))"
    using round_even_ge [of "n * 2 ^ nat (e - u)" "1 * 2 ^ nat (u - e)"] by linarith
  then show ?thesis
    unfolding r pack_zero by simp
qed

text \<open>The difference of two finite numbers, the first the greater, is neither zero nor not-a-number.\<close>

lemma js_sub_positive:
  assumes "binary64 (Fin s m e)" and "binary64 (Fin t n f)"
    and "js_lt (Fin t n f) (Fin s m e) = Some True"
  shows "\<not> is_zero (js_sub (Fin s m e) (Fin t n f)) \<and> js_sub (Fin s m e) (Fin t n f) \<noteq> NaN"
proof -
  define g where "g = min e f"
  define c where "c = scaled s m e g + scaled (\<not> t) n f g"
  have g: "- 1074 \<le> g"
    using assms(1,2) by (simp add: g_def binary64_def)
  have "scaled t n f g < scaled s m e g"
    using assms(3) by (simp add: g_def min.commute)
  then have c: "0 < c"
    by (simp add: c_def scaled_def signed_not)
  then have "js_sub (Fin s m e) (Fin t n f) = round_ratio False (nat \<bar>c\<bar>) 1 g"
    by (simp add: js_sub_def round_int_def g_def c_def)
  moreover have "0 < nat \<bar>c\<bar>" using c by simp
  ultimately show ?thesis
    using round_integer_nonzero [of "nat \<bar>c\<bar>" g False] g round_ratio_not_NaN by simp
qed

lemma js_div_finite_not_NaN:
  assumes "\<not> non_finite x" and "\<not> is_zero y" and "y \<noteq> NaN"
  shows "js_div x y \<noteq> NaN"
  using assms by (cases x; cases y) (simp_all add: non_finite_def is_zero_def round_ratio_not_NaN)


subsection \<open>Rounding is within half a unit in the last place, and yields binary64 values\<close>

text \<open>
  The exact value \<open>(n / d) * 2^e\<close> is a rational number. The lemmas below place it
  between two powers of two, bound the distance of the rounded significand from it, and
  show that every operation returns a value of the binary64 format.
\<close>

lemma pow_nat_ratio: "(2::rat) ^ nat a / 2 ^ nat (- a) = 2 powi a"
  by (cases "0 \<le> a") (simp_all add: power_int_def field_simps)

lemma scaled_ratio:
  "(of_nat (n * 2 ^ nat (e - u)) :: rat) / of_nat (d * 2 ^ nat (u - e)) =
     of_nat n / of_nat d * 2 powi (e - u)"
proof -
  have "(of_nat (n * 2 ^ nat (e - u)) :: rat) / of_nat (d * 2 ^ nat (u - e)) =
      of_nat n / of_nat d * (2 ^ nat (e - u) / 2 ^ nat (- (e - u)))"
    by simp
  then show ?thesis
    by (simp only: pow_nat_ratio)
qed

lemma round_even_half:
  assumes "0 < d"
  shows "\<bar>(of_nat (round_even n d) :: rat) - of_nat n / of_nat d\<bar> \<le> 1 / 2"
proof -
  define q where "q = n div d"
  define r where "r = n mod d"
  define x where "x = (of_nat r :: rat) / of_nat d"
  have n: "n = q * d + r" and r: "r < d"
    using assms by (simp_all add: q_def r_def)
  have d: "(0::rat) < of_nat d" using assms by simp
  have v: "(of_nat n :: rat) / of_nat d = of_nat q + x"
    using d by (simp add: n x_def field_simps)
  have x0: "0 \<le> x"
    using d by (simp add: x_def)
  consider (lo) "2 * r < d" | (hi) "d < 2 * r" | (mid) "d = 2 * r"
    by linarith
  then have "\<bar>(of_nat (round_up q r d) :: rat) - (of_nat q + x)\<bar> \<le> 1 / 2"
  proof cases
    case lo
    then have "x < 1 / 2"
      using d by (simp add: x_def field_simps)
    then show ?thesis
      using lo x0 by (simp add: round_up_def)
  next
    case hi
    then have "1 / 2 < x"
      using d by (simp add: x_def field_simps)
    moreover have "x < 1"
      using r d by (simp add: x_def)
    ultimately show ?thesis
      using hi by (simp add: round_up_def)
  next
    case mid
    then have "x = 1 / 2"
      using d by (simp add: x_def field_simps)
    then show ?thesis
      using mid by (simp add: round_up_def)
  qed
  then show ?thesis
    by (simp add: round_even_def q_def r_def v [unfolded q_def])
qed


lemma bitlen_rat_bounds:
  assumes "0 < n"
  shows "(2::rat) powi (bitlen (int n) - 1) \<le> of_nat n" and "(of_nat n :: rat) < 2 powi bitlen (int n)"
proof -
  have b: "(2::int) ^ nat (bitlen (int n) - 1) \<le> int n" "int n < 2 ^ nat (bitlen (int n))"
    using bitlen_bounds [of "int n"] assms by simp_all
  have pos: "1 \<le> bitlen (int n)"
    using assms bitlen_eq_zero_iff [of "int n"] bitlen_nonneg [of "int n"] by linarith
  have "(of_int (2 ^ nat (bitlen (int n) - 1)) :: rat) \<le> of_int (int n)"
    using b(1) by (simp only: of_int_le_iff)
  then show "(2::rat) powi (bitlen (int n) - 1) \<le> of_nat n"
    using pos by (simp add: power_int_def)
  have "(of_int (int n) :: rat) < of_int (2 ^ nat (bitlen (int n)))"
    using b(2) by (simp only: of_int_less_iff)
  then show "(of_nat n :: rat) < 2 powi bitlen (int n)"
    using pos by (simp add: power_int_def)
qed

lemma lead_exp_test:
  assumes "0 < d"
  shows "d * 2 ^ nat (k - e) \<le> n * 2 ^ nat (e - k) \<longleftrightarrow>
         (2::rat) powi k \<le> of_nat n / of_nat d * 2 powi e"
proof -
  have d: "(0::rat) < of_nat d" using assms by simp
  have "d * 2 ^ nat (k - e) \<le> n * 2 ^ nat (e - k) \<longleftrightarrow>
        (of_nat (d * 2 ^ nat (k - e)) :: rat) \<le> of_nat (n * 2 ^ nat (e - k))"
    by (simp only: of_nat_le_iff)
  also have "\<dots> \<longleftrightarrow> (1::rat) \<le> of_nat (n * 2 ^ nat (e - k)) / of_nat (d * 2 ^ nat (k - e))"
    using d by (simp add: field_simps)
  also have "\<dots> \<longleftrightarrow> (1::rat) \<le> of_nat n / of_nat d * 2 powi (e - k)"
    by (simp only: scaled_ratio)
  also have "\<dots> \<longleftrightarrow> (1::rat) \<le> of_nat n / of_nat d * 2 powi e / 2 powi k"
    by (simp add: power_int_diff)
  also have "\<dots> \<longleftrightarrow> (2::rat) powi k \<le> of_nat n / of_nat d * 2 powi e"
    using pos_le_divide_eq [of "(2::rat) powi k" 1 "of_nat n / of_nat d * 2 powi e"]
    by (simp del: times_divide_eq_left)
  finally show ?thesis .
qed

lemma floor_log2_bounds:
  assumes "0 < n" and "0 < d"
  shows "(2::rat) powi floor_log2 n d e \<le> of_nat n / of_nat d * 2 powi e"
    and "of_nat n / of_nat d * 2 powi e < (2::rat) powi (floor_log2 n d e + 1)"
proof -
  define bn where "bn = bitlen (int n)"
  define bd where "bd = bitlen (int d)"
  define k where "k = bn - bd + e"
  define V where "V = (of_nat n :: rat) / of_nat d * 2 powi e"
  have n: "(2::rat) powi (bn - 1) \<le> of_nat n" "(of_nat n :: rat) < 2 powi bn"
    using bitlen_rat_bounds [OF assms(1)] by (simp_all add: bn_def)
  have d: "(2::rat) powi (bd - 1) \<le> of_nat d" "(of_nat d :: rat) < 2 powi bd"
    using bitlen_rat_bounds [OF assms(2)] by (simp_all add: bd_def)
  have dpos: "(0::rat) < of_nat d" and npos: "(0::rat) < of_nat n"
    using assms by simp_all
  have "(of_nat n :: rat) / of_nat d < 2 powi bn / 2 powi (bd - 1)"
    using n(2) d(1) dpos npos by (intro frac_less) simp_all
  then have "(of_nat n :: rat) / of_nat d < 2 powi (bn - bd + 1)"
    by (simp add: power_int_diff power_int_add)
  then have "V < 2 powi (bn - bd + 1) * 2 powi e"
    unfolding V_def by (intro mult_strict_right_mono) simp_all
  then have up: "V < 2 powi (k + 1)"
    by (simp add: k_def power_int_add mult.commute)
  have "(2::rat) powi (bn - 1) / 2 powi bd < of_nat n / of_nat d"
    using n(1) d(2) dpos npos by (intro frac_less2) simp_all
  then have "(2::rat) powi (bn - bd - 1) < of_nat n / of_nat d"
    by (simp add: power_int_diff)
  then have "2 powi (bn - bd - 1) * 2 powi e < V"
    unfolding V_def by (intro mult_strict_right_mono) simp_all
  then have low: "2 powi (k - 1) < V"
    by (simp add: k_def power_int_add power_int_diff mult.commute)
  have fl: "floor_log2 n d e = (if 2 powi k \<le> V then k else k - 1)"
    using lead_exp_test [OF assms(2), of k e n]
    by (simp add: floor_log2_def lead_exp_def k_def bn_def bd_def V_def)
  show "(2::rat) powi floor_log2 n d e \<le> of_nat n / of_nat d * 2 powi e"
    using low unfolding fl V_def by auto
  show "of_nat n / of_nat d * 2 powi e < (2::rat) powi (floor_log2 n d e + 1)"
    using up low unfolding fl V_def by auto
qed


lemma pack_binary64:
  assumes "m \<le> 2 ^ 53" and "- 1074 \<le> u" and "- 1074 < u \<longrightarrow> 2 ^ 52 \<le> m"
  shows "binary64 (pack s m u)"
  using assms by (auto simp: pack_def finite_or_inf_def binary64_def)

lemma nat_le_of_rat_half:
  assumes "(of_nat m :: rat) \<le> x + 1 / 2" and "x < of_nat b"
  shows "m \<le> b"
proof -
  have "(of_nat m :: rat) < of_nat (b + 1)"
    using assms by simp
  then have "m < b + 1"
    by (simp only: of_nat_less_iff)
  then show ?thesis by simp
qed

lemma nat_ge_of_rat_half:
  assumes "x - 1 / 2 \<le> (of_nat m :: rat)" and "of_nat b \<le> x"
  shows "b \<le> m"
proof -
  have "(of_nat b :: rat) < of_nat (m + 1)"
    using assms by simp
  then have "b < m + 1"
    by (simp only: of_nat_less_iff)
  then show ?thesis by simp
qed

lemma round_at_significand:
  fixes n d :: nat and e :: int
  assumes "0 < n" and "0 < d"
  defines "u \<equiv> max (floor_log2 n d e - 52) (- 1074)"
  defines "m \<equiv> round_even (n * 2 ^ nat (e - u)) (d * 2 ^ nat (u - e))"
  shows "m \<le> 2 ^ 53" and "- 1074 < u \<longrightarrow> 2 ^ 52 \<le> m"
    and "\<bar>(of_nat m :: rat) - of_nat n / of_nat d * 2 powi e / 2 powi u\<bar> \<le> 1 / 2"
proof -
  define fl where "fl = floor_log2 n d e"
  define V where "V = (of_nat n :: rat) / of_nat d * 2 powi e"
  define W where "W = V / 2 powi u"
  have V: "2 powi fl \<le> V" "V < 2 powi (fl + 1)"
    using floor_log2_bounds [OF assms(1,2), of e] by (simp_all add: fl_def V_def)
  have D: "0 < d * 2 ^ nat (u - e)"
    using assms(2) by simp
  have "(of_nat (n * 2 ^ nat (e - u)) :: rat) / of_nat (d * 2 ^ nat (u - e)) = W"
    unfolding scaled_ratio W_def V_def by (simp add: power_int_diff)
  then have half: "\<bar>(of_nat m :: rat) - W\<bar> \<le> 1 / 2"
    using round_even_half [OF D, of "n * 2 ^ nat (e - u)"] by (simp add: m_def)
  then show "\<bar>(of_nat m :: rat) - of_nat n / of_nat d * 2 powi e / 2 powi u\<bar> \<le> 1 / 2"
    by (simp add: W_def V_def)
  have u: "fl - 52 \<le> u"
    by (simp add: u_def fl_def)
  have "W < 2 powi (fl + 1) / 2 powi u"
    unfolding W_def using V(2) by (intro divide_strict_right_mono) simp_all
  also have "\<dots> = 2 powi (fl + 1 - u)"
    by (simp add: power_int_diff)
  also have "\<dots> \<le> 2 powi 53"
    using u by (intro power_int_increasing) simp_all
  finally have "W < of_nat (2 ^ 53)"
    by simp
  moreover have "(of_nat m :: rat) \<le> W + 1 / 2"
    using half by linarith
  ultimately show "m \<le> 2 ^ 53"
    by (rule nat_le_of_rat_half [rotated])
  show "- 1074 < u \<longrightarrow> 2 ^ 52 \<le> m"
  proof
    assume "- 1074 < u"
    then have "u = fl - 52"
      by (simp add: u_def fl_def max_def split: if_splits)
    then have "2 powi 52 = (2::rat) powi fl / 2 powi u"
      by (simp add: power_int_diff)
    also have "\<dots> \<le> W"
      unfolding W_def using V(1) by (intro divide_right_mono) simp_all
    finally have "of_nat (2 ^ 52) \<le> W"
      by simp
    moreover have "W - 1 / 2 \<le> (of_nat m :: rat)"
      using half by linarith
    ultimately show "2 ^ 52 \<le> m"
      by (rule nat_ge_of_rat_half [rotated])
  qed
qed

theorem round_ratio_binary64:
  assumes "0 < d"
  shows "binary64 (round_ratio s n d e)"
proof (cases "n = 0")
  case True
  then show ?thesis by (simp add: round_ratio_def binary64_def)
next
  case False
  then have n: "0 < n" by simp
  show ?thesis
    using False round_at_significand(1,2) [OF n assms, of e]
    by (simp add: round_ratio_def round_at_def pack_binary64)
qed


theorem round_ratio_half_ulp:
  assumes "0 < d" and "round_ratio s n d e = Fin t m u"
  shows "t = s"
    and "\<bar>(of_nat m :: rat) * 2 powi u - of_nat n / of_nat d * 2 powi e\<bar> \<le> 2 powi u / 2"
proof -
  define V where "V = (of_nat n :: rat) / of_nat d * 2 powi e"
  have "t = s \<and> \<bar>(of_nat m :: rat) * 2 powi u - V\<bar> \<le> 2 powi u / 2"
  proof (cases "n = 0")
    case True
    then show ?thesis using assms(2) by (auto simp: round_ratio_def V_def)
  next
    case False
    then have n: "0 < n" by simp
    define u0 where "u0 = max (floor_log2 n d e - 52) (- 1074)"
    define m0 where "m0 = round_even (n * 2 ^ nat (e - u0)) (d * 2 ^ nat (u0 - e))"
    have "\<bar>(of_nat m0 :: rat) - V / 2 powi u0\<bar> \<le> 1 / 2"
      using round_at_significand(3) [OF n assms(1), of e] by (simp add: m0_def u0_def V_def)
    then have "\<bar>(of_nat m0 :: rat) - V / 2 powi u0\<bar> * 2 powi u0 \<le> 1 / 2 * 2 powi u0"
      by (intro mult_right_mono) simp_all
    then have "\<bar>((of_nat m0 :: rat) - V / 2 powi u0) * 2 powi u0\<bar> \<le> 2 powi u0 / 2"
      by (simp add: abs_mult)
    then have err: "\<bar>(of_nat m0 :: rat) * 2 powi u0 - V\<bar> \<le> 2 powi u0 / 2"
      by (simp add: algebra_simps)
    have p: "pack s m0 u0 = Fin t m u"
      using assms(2) False by (simp add: round_ratio_def round_at_def m0_def u0_def)
    show ?thesis
    proof (cases "m0 = 2 ^ 53")
      case True
      then have mu: "t = s" "m = 2 ^ 52" "u = u0 + 1"
        using p by (auto simp: pack_def finite_or_inf_def split: if_splits)
      have "(of_nat m :: rat) * 2 powi u = of_nat m0 * 2 powi u0"
        by (simp add: mu True power_int_add)
      moreover have "(2::rat) powi u0 / 2 \<le> 2 powi u / 2"
        by (simp add: mu power_int_add)
      ultimately show ?thesis
        using err mu(1) by simp
    next
      case False
      then have "t = s" "m = m0" "u = u0"
        using p by (auto simp: pack_def finite_or_inf_def split: if_splits)
      then show ?thesis using err by simp
    qed
  qed
  then show "t = s"
    and "\<bar>(of_nat m :: rat) * 2 powi u - of_nat n / of_nat d * 2 powi e\<bar> \<le> 2 powi u / 2"
    by (simp_all add: V_def)
qed

lemma round_int_binary64: "binary64 (round_int z c g)"
  by (simp add: round_int_def round_ratio_binary64) (simp add: binary64_def)

lemma js_add_binary64: "binary64 (js_add x y)"
  by (cases x; cases y) (simp_all add: round_int_binary64, simp_all add: binary64_def)

lemma js_sub_binary64: "binary64 (js_sub x y)"
  by (simp add: js_sub_def js_add_binary64)

lemma js_mul_binary64: "binary64 (js_mul x y)"
  by (cases x; cases y) (simp_all add: round_ratio_binary64, simp_all add: binary64_def)

lemma js_div_binary64: "binary64 (js_div x y)"
  by (cases x; cases y) (simp_all add: round_ratio_binary64, simp_all add: binary64_def)

lemma js_sqrt_binary64: "binary64 x \<Longrightarrow> binary64 (js_sqrt x)"
  by (cases x) (simp_all add: sqrt_round_def round_ratio_binary64, simp_all add: binary64_def)

lemma dec_binary64: "binary64 (dec n k)"
  by (simp add: dec_def round_ratio_binary64)

lemma NaN_binary64: "binary64 NaN"
  by (simp add: binary64_def)

theorem results_binary64:
  "binary64 (calculateSharpeRatio r1 a1 d1)"
  "binary64 (calculateTreynorRatio a2 m2 b2)"
  "binary64 (calculateSortinoRatio r3 a3 d3)"
  "binary64 (calculateEnterpriseValueToEBITDA v4 e4)"
  "binary64 (calculatePriceToBook p5 b5)"
  "binary64 (calculateGrahamNumber e6 g6 y6)"
  "binary64 (calculateExpectedReturnCAPM r7 m7 b7)"
  "binary64 (calculateAltmanZScore w8 e8 a8 v8 l8)"
  "binary64 (calculateGordonIntrinsicValueDDM c9 g9 d9)"
  by (simp_all add: calculateSharpeRatio_def calculateTreynorRatio_def calculateSortinoRatio_def
      calculateEnterpriseValueToEBITDA_def calculatePriceToBook_def calculateGrahamNumber_def
      calculateExpectedReturnCAPM_def calculateAltmanZScore_def
      calculateGordonIntrinsicValueDDM_def Let_def js_div_binary64 js_add_binary64 NaN_binary64)


lemma nearest_integer:
  assumes "\<bar>(of_nat m :: rat) - W\<bar> \<le> 1 / 2"
  shows "\<bar>(of_nat m :: rat) - W\<bar> \<le> \<bar>of_int j - W\<bar>"
proof (cases "j = int m")
  case True
  then show ?thesis by simp
next
  case False
  then have "1 \<le> \<bar>j - int m\<bar>" by simp
  then have "(of_int 1 :: rat) \<le> of_int \<bar>j - int m\<bar>"
    by (simp only: of_int_le_iff)
  then have "1 \<le> \<bar>(of_int j :: rat) - of_nat m\<bar>"
    by simp
  then show ?thesis
    using assms by linarith
qed

lemma pack_value:
  assumes "pack s m0 u0 = Fin t m u"
  shows "t = s" and "(of_nat m :: rat) * 2 powi u = of_nat m0 * 2 powi u0"
proof -
  have "t = s \<and> (of_nat m :: rat) * 2 powi u = of_nat m0 * 2 powi u0"
  proof (cases "m0 = 2 ^ 53")
    case True
    then have "t = s" "m = 2 ^ 52" "u = u0 + 1"
      using assms by (auto simp: pack_def finite_or_inf_def split: if_splits)
    then show ?thesis
      by (simp add: True power_int_add)
  next
    case False
    then show ?thesis
      using assms by (auto simp: pack_def finite_or_inf_def split: if_splits)
  qed
  then show "t = s" and "(of_nat m :: rat) * 2 powi u = of_nat m0 * 2 powi u0"
    by simp_all
qed

lemma round_positive_nearest:
  fixes n d :: nat and e :: int
  assumes "0 < d" and "round_ratio s n d e = Fin t m u"
    and "binary64 (Fin t' m' e')"
  defines "V \<equiv> (of_nat n :: rat) / of_nat d * 2 powi e"
  shows "\<bar>(of_nat m :: rat) * 2 powi u - V\<bar> \<le> \<bar>of_int (signed t' m') * 2 powi e' - V\<bar>"
proof (cases "n = 0")
  case True
  then show ?thesis using assms(2) by (auto simp: round_ratio_def V_def)
next
  case False
  then have n: "0 < n" by simp
  define fl where "fl = floor_log2 n d e"
  define u0 where "u0 = max (fl - 52) (- 1074)"
  define m0 where "m0 = round_even (n * 2 ^ nat (e - u0)) (d * 2 ^ nat (u0 - e))"
  define W where "W = V / 2 powi u0"
  have p: "pack s m0 u0 = Fin t m u"
    using assms(2) False by (simp add: round_ratio_def round_at_def m0_def u0_def fl_def)
  have val: "(of_nat m :: rat) * 2 powi u = of_nat m0 * 2 powi u0"
    using pack_value(2) [OF p] .
  have half: "\<bar>(of_nat m0 :: rat) - W\<bar> \<le> 1 / 2"
    using round_at_significand(3) [OF n assms(1), of e]
    by (simp add: m0_def u0_def fl_def W_def V_def)
  have V: "V = W * 2 powi u0"
    by (simp add: W_def)
  have scale: "\<bar>x * 2 powi u0 - V\<bar> = \<bar>x - W\<bar> * 2 powi u0" for x :: rat
  proof -
    have "x * 2 powi u0 - V = (x - W) * 2 powi u0"
      by (simp add: V algebra_simps)
    then show ?thesis
      by (simp add: abs_mult)
  qed
  have multiple: "\<bar>(of_nat m0 :: rat) * 2 powi u0 - V\<bar> \<le> \<bar>of_int j * 2 powi u0 - V\<bar>" for j
    unfolding scale using nearest_integer [OF half, of j] by (intro mult_right_mono) simp_all
  show ?thesis
  proof (cases "u0 \<le> e'")
    case True
    have "(of_int (signed t' m') :: rat) * 2 powi e' =
        of_int (signed t' m') * (2 powi (e' - u0) * 2 powi u0)"
      by (simp add: power_int_diff)
    also have "(2::rat) powi (e' - u0) = of_int (2 ^ nat (e' - u0))"
      using True by (simp add: power_int_def)
    finally have eq: "(of_int (signed t' m') :: rat) * 2 powi e' =
        of_int (signed t' m' * 2 ^ nat (e' - u0)) * 2 powi u0"
      by simp
    show ?thesis
      unfolding val eq by (rule multiple)
  next
    case False
    have e': "- 1074 \<le> e'" and m': "m' < 2 ^ 53"
      using assms(3) by (simp_all add: binary64_def)
    have u0: "u0 = fl - 52"
      using False e' by (simp add: u0_def max_def split: if_splits)
    have "(of_int (signed t' m') :: rat) \<le> of_nat m'"
      by (simp add: signed_def)
    also have "\<dots> < of_nat (2 ^ 53)"
      using m' by (simp only: of_nat_less_iff)
    finally have "(of_int (signed t' m') :: rat) * 2 powi e' < of_nat (2 ^ 53) * 2 powi e'"
      by (intro mult_strict_right_mono) simp_all
    also have "\<dots> = 2 powi (e' + 53)"
      by (simp add: power_int_add)
    also have "\<dots> \<le> 2 powi fl"
      using False u0 by (intro power_int_increasing) simp_all
    finally have below: "(of_int (signed t' m') :: rat) * 2 powi e' < 2 powi fl" .
    have Vlow: "2 powi fl \<le> V"
      using floor_log2_bounds(1) [OF n assms(1), of e] by (simp add: fl_def V_def)
    have "(2::rat) powi fl = of_int (2 ^ 52) * 2 powi u0"
      by (simp add: u0 power_int_diff)
    then have "\<bar>(of_nat m0 :: rat) * 2 powi u0 - V\<bar> \<le> \<bar>2 powi fl - V\<bar>"
      using multiple [of "2 ^ 52"] by simp
    also have "\<dots> \<le> \<bar>of_int (signed t' m') * 2 powi e' - V\<bar>"
      using below Vlow by linarith
    finally show ?thesis
      by (simp add: val)
  qed
qed


text \<open>
  Round to nearest: no finite binary64 value is closer to the exact value
  \<open>(-1)^s * (n / d) * 2^e\<close> than the finite result of \<open>round_ratio\<close>.
\<close>

theorem round_ratio_nearest:
  assumes "0 < d" and "round_ratio s n d e = Fin t m u"
    and "binary64 y" and "\<not> non_finite y"
  shows "\<bar>valof (round_ratio s n d e) - of_int (signed s n) / of_nat d * 2 powi e\<bar>
         \<le> \<bar>valof y - of_int (signed s n) / of_nat d * 2 powi e\<bar>"
proof -
  define V where "V = (of_nat n :: rat) / of_nat d * 2 powi e"
  obtain t' m' e' where y: "y = Fin t' m' e'"
    using assms(4) by (cases y) (simp_all add: non_finite_def)
  have ts: "t = s"
    using round_ratio_half_ulp(1) [OF assms(1,2)] .
  have b: "binary64 (Fin (t' \<noteq> s) m' e')"
    using assms(3) by (simp add: y binary64_def)
  have closest: "\<bar>(of_nat m :: rat) * 2 powi u - V\<bar>
      \<le> \<bar>of_int (signed (t' \<noteq> s) m') * 2 powi e' - V\<bar>"
    using round_positive_nearest [OF assms(1,2) b] by (simp add: V_def)
  show ?thesis
  proof (cases s)
    case True
    have "valof (Fin t m u) - of_int (signed s n) / of_nat d * 2 powi e =
        - ((of_nat m :: rat) * 2 powi u - V)"
      by (simp add: valof_def signed_def ts True V_def)
    moreover have "valof y - of_int (signed s n) / of_nat d * 2 powi e =
        - (of_int (signed (t' \<noteq> s) m') * 2 powi e' - V)"
      by (simp add: y valof_def signed_def True V_def)
    ultimately show ?thesis
      using closest by (simp only: assms(2) abs_minus_cancel)
  next
    case False
    have "valof (Fin t m u) - of_int (signed s n) / of_nat d * 2 powi e =
        (of_nat m :: rat) * 2 powi u - V"
      by (simp add: valof_def signed_def ts False V_def)
    moreover have "valof y - of_int (signed s n) / of_nat d * 2 powi e =
        of_int (signed (t' \<noteq> s) m') * 2 powi e' - V"
      by (simp add: y valof_def signed_def False V_def)
    ultimately show ?thesis
      using closest by (simp only: assms(2))
  qed
qed

lemma abs_scale_tie:
  fixes a P V :: rat
  assumes "0 < P" and "\<bar>a * P - V\<bar> = P / 2"
  shows "\<bar>a - V / P\<bar> = 1 / 2"
proof -
  have "a - V / P = (a * P - V) / P"
    using assms(1) by (simp add: field_simps)
  then have "\<bar>a - V / P\<bar> = \<bar>a * P - V\<bar> / P"
    using assms(1) by (simp only: abs_divide)
  then show ?thesis
    using assms by simp
qed

lemma round_even_tie:
  assumes "0 < d" and "\<bar>(of_nat (round_even n d) :: rat) - of_nat n / of_nat d\<bar> = 1 / 2"
  shows "even (round_even n d)"
proof -
  define q where "q = n div d"
  define r where "r = n mod d"
  define x where "x = (of_nat r :: rat) / of_nat d"
  have n: "n = q * d + r" and r: "r < d"
    using assms(1) by (simp_all add: q_def r_def)
  have d: "(0::rat) < of_nat d" using assms(1) by simp
  have v: "(of_nat n :: rat) / of_nat d = of_nat q + x"
    using d by (simp add: n x_def field_simps)
  have x0: "0 \<le> x" and x1: "x < 1"
    using d r by (simp_all add: x_def)
  have tie: "\<bar>(of_nat (round_up q r d) :: rat) - (of_nat q + x)\<bar> = 1 / 2"
    using assms(2) by (simp add: round_even_def q_def r_def v [unfolded q_def])
  consider (lo) "2 * r < d" | (hi) "d < 2 * r" | (mid) "d = 2 * r"
    by linarith
  then have "even (round_up q r d)"
  proof cases
    case lo
    then have "x < 1 / 2"
      using d by (simp add: x_def field_simps)
    then show ?thesis
      using tie lo x0 by (simp add: round_up_def)
  next
    case hi
    then have "1 / 2 < x"
      using d by (simp add: x_def field_simps)
    then show ?thesis
      using tie hi x1 by (simp add: round_up_def)
  next
    case mid
    then show ?thesis
      by (simp add: round_up_def)
  qed
  then show ?thesis
    by (simp add: round_even_def q_def r_def)
qed

text \<open>Ties to even: a result exactly half a unit away has an even significand.\<close>

theorem round_ratio_tie_even:
  assumes "0 < d" and "round_ratio s n d e = Fin t m u"
    and "\<bar>(of_nat m :: rat) * 2 powi u - of_nat n / of_nat d * 2 powi e\<bar> = 2 powi u / 2"
  shows "even m"
proof (cases "n = 0")
  case True
  then show ?thesis using assms(2) by (auto simp: round_ratio_def)
next
  case False
  then have n: "0 < n" by simp
  define V where "V = (of_nat n :: rat) / of_nat d * 2 powi e"
  define u0 where "u0 = max (floor_log2 n d e - 52) (- 1074)"
  define N where "N = n * 2 ^ nat (e - u0)"
  define D where "D = d * 2 ^ nat (u0 - e)"
  define m0 where "m0 = round_even N D"
  have p: "pack s m0 u0 = Fin t m u"
    using assms(2) False by (simp add: round_ratio_def round_at_def m0_def u0_def N_def D_def)
  show ?thesis
  proof (cases "m0 = 2 ^ 53")
    case True
    then have "m = 2 ^ 52"
      using p by (auto simp: pack_def finite_or_inf_def split: if_splits)
    then show ?thesis by simp
  next
    case False
    then have mu: "m = m0" "u = u0"
      using p by (auto simp: pack_def finite_or_inf_def split: if_splits)
    have D: "0 < D"
      using assms(1) by (simp add: D_def)
    have W: "(of_nat N :: rat) / of_nat D = V / 2 powi u0"
      unfolding N_def D_def scaled_ratio V_def by (simp add: power_int_diff)
    have "\<bar>(of_nat m0 :: rat) * 2 powi u0 - V\<bar> = 2 powi u0 / 2"
      using assms(3) unfolding mu V_def .
    then have "\<bar>(of_nat m0 :: rat) - V / 2 powi u0\<bar> = 1 / 2"
      by (intro abs_scale_tie) simp_all
    then have "even m0"
      using round_even_tie [OF D, of N] by (simp add: m0_def W)
    then show ?thesis by (simp add: mu)
  qed
qed


lemma pack_overflow:
  "pack s m u = Inf t \<longleftrightarrow> t = s \<and> (if m = 2 ^ 53 then 971 \<le> u else 971 < u)"
  by (auto simp: pack_def finite_or_inf_def)

text \<open>
  Overflow: the result is an infinity exactly from \<open>2^1024 - 2^970\<close> on, the midpoint
  between the largest finite value and \<open>2^1024\<close>.
\<close>

theorem round_ratio_overflow:
  fixes n d :: nat and e :: int
  assumes "0 < d" and "0 < n"
  defines "V \<equiv> (of_nat n :: rat) / of_nat d * 2 powi e"
  shows "round_ratio s n d e = Inf t \<longleftrightarrow> t = s \<and> (2 ^ 54 - 1) * 2 powi 970 \<le> V"
proof -
  define fl where "fl = floor_log2 n d e"
  define u0 where "u0 = max (fl - 52) (- 1074)"
  define N where "N = n * 2 ^ nat (e - u0)"
  define D where "D = d * 2 ^ nat (u0 - e)"
  define m0 where "m0 = round_even N D"
  define W where "W = V / 2 powi u0"
  have r: "round_ratio s n d e = pack s m0 u0"
    using assms(2) by (simp add: round_ratio_def round_at_def m0_def u0_def fl_def N_def D_def)
  have Vb: "2 powi fl \<le> V" "V < 2 powi (fl + 1)"
    using floor_log2_bounds [OF assms(2,1), of e] by (simp_all add: fl_def V_def)
  have D: "0 < D"
    using assms(1) by (simp add: D_def)
  have ND: "(of_nat N :: rat) / of_nat D = W"
    unfolding N_def D_def scaled_ratio W_def V_def by (simp add: power_int_diff)
  have half: "\<bar>(of_nat m0 :: rat) - W\<bar> \<le> 1 / 2"
    using round_even_half [OF D, of N] by (simp add: m0_def ND)
  have m0: "m0 \<le> 2 ^ 53"
    using round_at_significand(1) [OF assms(2,1), of e]
    by (simp add: m0_def N_def D_def u0_def fl_def)
  have V: "V = W * 2 powi u0"
    by (simp add: W_def)
  have big: "(2 ^ 54 - 1) * 2 powi 970 \<le> V" if "971 < u0"
  proof -
    have "u0 = fl - 52"
      using that by (simp add: u0_def max_def split: if_splits)
    then have "1024 \<le> fl"
      using that by simp
    then have "(2::rat) powi 1024 \<le> 2 powi fl"
      by (intro power_int_increasing) simp_all
    moreover have "(2 ^ 54 - 1) * 2 powi 970 \<le> (2::rat) powi 1024"
      by (simp add: power_int_def)
    ultimately show ?thesis
      using Vb(1) by linarith
  qed
  have carry: "(2 ^ 54 - 1) * 2 powi 970 \<le> V" if "m0 = 2 ^ 53" and "u0 = 971"
  proof -
    have "(of_nat m0 :: rat) = 2 ^ 53"
      using that(1) by simp
    then have "(2 ^ 53 - 1 / 2 :: rat) \<le> W"
      using half by linarith
    then have "(2 ^ 53 - 1 / 2) * 2 powi 971 \<le> W * 2 powi 971"
      by (intro mult_right_mono) simp_all
    then show ?thesis
      by (simp add: V that(2) power_int_def)
  qed
  have conv: "if m0 = 2 ^ 53 then 971 \<le> u0 else 971 < u0"
    if le: "(2 ^ 54 - 1) * 2 powi 970 \<le> V"
  proof -
    have u: "971 \<le> u0"
    proof (rule ccontr)
      assume "\<not> 971 \<le> u0"
      then have "fl + 1 \<le> 1023"
        by (simp add: u0_def)
      then have "(2::rat) powi (fl + 1) \<le> 2 powi 1023"
        by (intro power_int_increasing) simp_all
      moreover have "(2::rat) powi 1023 < (2 ^ 54 - 1) * 2 powi 970"
        by (simp add: power_int_def)
      ultimately show False
        using Vb(2) le by linarith
    qed
    have "m0 = 2 ^ 53" if eq: "u0 = 971"
    proof (rule ccontr)
      assume ne: "m0 \<noteq> 2 ^ 53"
      have "(2 ^ 54 - 1) * 2 powi 970 = (2 ^ 53 - 1 / 2 :: rat) * 2 powi 971"
        by (simp add: power_int_def)
      then have "(2 ^ 53 - 1 / 2) * 2 powi 971 \<le> W * 2 powi 971"
        using le by (simp add: V eq)
      then have W: "(2 ^ 53 - 1 / 2 :: rat) \<le> W"
        by (simp only: mult_le_cancel_right) simp
      have "(of_nat (2 ^ 53 - 1) :: rat) \<le> W - 1 / 2 + 1 / 2 - 1 / 2"
        using W by (simp add: of_nat_diff)
      then have "2 ^ 53 - 1 \<le> m0"
        using half by (intro nat_ge_of_rat_half [of "W - 1 / 2"]) linarith+
      then have m: "m0 = 2 ^ 53 - 1"
        using m0 ne by linarith
      then have "(of_nat m0 :: rat) = 2 ^ 53 - 1"
        by (simp add: of_nat_diff)
      then have "\<bar>(of_nat m0 :: rat) - W\<bar> = 1 / 2"
        using half W by linarith
      then have "even m0"
        using round_even_tie [OF D, of N] by (simp add: m0_def ND)
      then show False
        by (simp add: m)
    qed
    then show ?thesis
      using u by (cases "u0 = 971") auto
  qed
  have "(if m0 = 2 ^ 53 then 971 \<le> u0 else 971 < u0) \<longleftrightarrow> (2 ^ 54 - 1) * 2 powi 970 \<le> V"
  proof
    assume a: "if m0 = 2 ^ 53 then 971 \<le> u0 else 971 < u0"
    show "(2 ^ 54 - 1) * 2 powi 970 \<le> V"
    proof (cases "971 < u0")
      case True
      then show ?thesis by (rule big)
    next
      case False
      then have "m0 = 2 ^ 53" "u0 = 971"
        using a by (auto split: if_splits)
      then show ?thesis by (rule carry)
    qed
  next
    assume "(2 ^ 54 - 1) * 2 powi 970 \<le> V"
    then show "if m0 = 2 ^ 53 then 971 \<le> u0 else 971 < u0"
      by (rule conv)
  qed
  then show ?thesis
    unfolding r pack_overflow by (rule arg_cong [where f = "\<lambda>P. t = s \<and> P"])
qed

text \<open>The integer square root is the floor of the real one.\<close>

lemma isqrt_bounds: "isqrt n * isqrt n \<le> n \<and> n < (isqrt n + 1) * (isqrt n + 1)"
proof (induction n rule: isqrt.induct)
  case (1 n)
  show ?case
  proof (cases "n < 2")
    case True
    then have "isqrt n = n"
      by (subst isqrt.simps) simp
    moreover have "n = 0 \<or> n = 1"
      using True by auto
    ultimately show ?thesis by auto
  next
    case False
    define r where "r = isqrt (n div 4)"
    have ih: "r * r \<le> n div 4" "n div 4 < (r + 1) * (r + 1)"
      using 1 False by (simp_all add: r_def)
    have lo: "(2 * r) * (2 * r) \<le> n"
      using ih(1) by (simp add: algebra_simps)
    have "n div 4 + 1 \<le> (r + 1) * (r + 1)"
      using ih(2) by simp
    then have hi: "n < (2 * r + 2) * (2 * r + 2)"
      by (simp add: algebra_simps)
    have "isqrt n = isqrt_step (2 * r) n"
      using False by (subst isqrt.simps) (simp add: r_def)
    then show ?thesis
      using lo hi by (auto simp: isqrt_step_def algebra_simps)
  qed
qed

section \<open>Evaluation on concrete Numbers\<close>

lemmas number_eval = dec_def round_ratio_def round_at_def floor_log2_def lead_exp_def
  round_even_def round_up_def pack_def finite_or_inf_def round_int_def compute_bitlen
  scaled_def signed_def js_sub_def isqrt.simps isqrt_step_def root_sticky_def sqrt_round_def

lemmas near_eval = near_def valof_def non_finite_def signed_def power_int_minus

text \<open>The literals of the source and of the examples, as the binary64 values they denote.\<close>

lemma dec_2_2: "dec 2 2 = Fin False 5764607523034235 (- 58)"
  by (simp add: number_eval)

lemma dec_1_1: "dec 1 1 = Fin False 7205759403792794 (- 56)"
  by (simp add: number_eval)

lemma dec_15_2: "dec 15 2 = Fin False 5404319552844595 (- 55)"
  by (simp add: number_eval)

lemma dec_225_1: "dec 225 1 = Fin False 6333186975989760 (- 48)"
  by (simp add: number_eval)

lemma dec_8_2: "dec 8 2 = Fin False 5764607523034235 (- 56)"
  by (simp add: number_eval)

lemma dec_12_1: "dec 12 1 = Fin False 5404319552844595 (- 52)"
  by (simp add: number_eval)

lemma dec_5_0: "dec 5 0 = Fin False 5629499534213120 (- 50)"
  by (simp add: number_eval)

lemma dec_5_2: "dec 5 2 = Fin False 7205759403792794 (- 57)"
  by (simp add: number_eval)

lemma dec_3_2: "dec 3 2 = Fin False 8646911284551352 (- 58)"
  by (simp add: number_eval)

lemma dec_1_0: "dec 1 0 = Fin False 4503599627370496 (- 52)"
  by (simp add: number_eval)

lemma dec_2_0: "dec 2 0 = Fin False 4503599627370496 (- 51)"
  by (simp add: number_eval)

lemma dec_6_2: "dec 6 2 = Fin False 8646911284551352 (- 57)"
  by (simp add: number_eval)

lemma dec_50_0: "dec 50 0 = Fin False 7036874417766400 (- 47)"
  by (simp add: number_eval)

lemma dec_14_1: "dec 14 1 = Fin False 6305039478318694 (- 52)"
  by (simp add: number_eval)

lemma dec_33_1: "dec 33 1 = Fin False 7430939385161318 (- 51)"
  by (simp add: number_eval)

lemma dec_6_1: "dec 6 1 = Fin False 5404319552844595 (- 53)"
  by (simp add: number_eval)

lemma dec_2000000_0: "dec 2000000 0 = Fin False 8589934592000000 (- 32)"
  by (simp add: number_eval)

lemma dec_1500000_0: "dec 1500000 0 = Fin False 6442450944000000 (- 32)"
  by (simp add: number_eval)

lemma dec_10000000_0: "dec 10000000 0 = Fin False 5368709120000000 (- 29)"
  by (simp add: number_eval)

lemma dec_4000000_0: "dec 4000000 0 = Fin False 8589934592000000 (- 31)"
  by (simp add: number_eval)

lemma dec_6000000_0: "dec 6000000 0 = Fin False 6442450944000000 (- 30)"
  by (simp add: number_eval)

text \<open>\<open>Math.sqrt(22.5)\<close> is 4.743416490252569.\<close>

lemma sqrt_22_5: "js_sqrt (dec 225 1) = Fin False 5340612184491134 (- 50)"
  unfolding dec_225_1 by (simp add: number_eval)

text \<open>
  22.5 lies strictly between the squares of the two midpoints around that value, half a
  unit in the last place (\<open>2^-51\<close>) below and above: it is the binary64 value nearest
  to the real square root.
\<close>

lemma sqrt_22_5_nearest:
  "(valof (js_sqrt (dec 225 1)) - 2 powi (- 51)) ^ 2 < valof (dec 225 1) \<and>
   valof (dec 225 1) < (valof (js_sqrt (dec 225 1)) + 2 powi (- 51)) ^ 2"
  unfolding sqrt_22_5 unfolding dec_225_1
  by (simp add: valof_def signed_def power_int_minus power2_eq_square field_simps)

text \<open>The calls of the README, with the values a binary64 machine prints for them.\<close>

lemma sharpe_value: \<comment> \<open>0.5333333333333333\<close>
  "calculateSharpeRatio (dec 2 2) (dec 1 1) (dec 15 2) = Fin False 4803839602528529 (- 53)"
  unfolding calculateSharpeRatio_def dec_2_2 dec_1_1 dec_15_2 by (simp add: number_eval)

lemma treynor_value: \<comment> \<open>0.01666666666666667\<close>
  "calculateTreynorRatio (dec 1 1) (dec 8 2) (dec 12 1) = Fin False 4803839602528530 (- 58)"
  unfolding calculateTreynorRatio_def dec_1_1 dec_8_2 dec_12_1 by (simp add: number_eval)

lemma graham_value: \<comment> \<open>830.0978857941996\<close>
  "calculateGrahamNumber (dec 5 0) (dec 5 2) (dec 3 2) = Fin False 7301618220983972 (- 43)"
  unfolding calculateGrahamNumber_def Let_def sqrt_22_5 unfolding dec_5_0 dec_5_2 dec_3_2 dec_1_0
  by (simp add: number_eval)

lemma capm_value: \<comment> \<open>0.092\<close>
  "calculateExpectedReturnCAPM (dec 2 2) (dec 8 2) (dec 12 1) = Fin False 6629298651489370 (- 56)"
  unfolding calculateExpectedReturnCAPM_def dec_2_2 dec_8_2 dec_12_1 by (simp add: number_eval)

lemma gordon_value: \<comment> \<open>49.99999999999999\<close>
  "calculateGordonIntrinsicValueDDM (dec 2 0) (dec 6 2) (dec 1 1) =
     Fin False 7036874417766399 (- 47)"
  unfolding calculateGordonIntrinsicValueDDM_def js_le_def dec_2_0 dec_6_2 dec_1_1
  by (simp add: number_eval)

lemma altman_value: \<comment> \<open>4.575000000000001\<close>
  "calculateAltmanZScore (dec 2000000 0) (dec 1500000 0) (dec 10000000 0) (dec 4000000 0)
     (dec 6000000 0) = Fin False 5150992073805006 (- 50)"
  unfolding calculateAltmanZScore_def Let_def dec_12_1 dec_14_1 dec_33_1 dec_6_1
    dec_2000000_0 dec_1500000_0 dec_10000000_0 dec_4000000_0 dec_6000000_0
  by (simp add: number_eval)

lemma altman_specified_value: \<comment> \<open>4.574999999999999\<close>
  "altman_as_specified (dec 2000000 0) (dec 1500000 0) (dec 10000000 0) (dec 4000000 0)
     (dec 6000000 0) = Fin False 5150992073805004 (- 50)"
  unfolding altman_as_specified_def Let_def dec_12_1 dec_14_1 dec_33_1 dec_6_1
    dec_2000000_0 dec_1500000_0 dec_10000000_0 dec_4000000_0 dec_6000000_0
  by (simp add: number_eval)

lemma altman_no_assets_value: \<comment> \<open>Infinity\<close>
  "calculateAltmanZScore (dec 1 0) (dec 1 0) (dec 0 0) (dec 1 0) (dec 1 0) = Inf False"
  unfolding calculateAltmanZScore_def Let_def dec_12_1 dec_14_1 dec_33_1 dec_6_1 dec_1_0 dec_zero
  by (simp add: number_eval)

lemma rates_0_1_0_06: "\<not> js_le (dec 1 1) (dec 6 2)"
  unfolding js_le_def dec_1_1 dec_6_2 by (simp add: number_eval)

lemma rates_0_05_0_06: "js_le (dec 5 2) (dec 6 2)"
  unfolding js_le_def dec_5_2 dec_6_2 by (simp add: number_eval)

lemma rates_finite:
  "\<not> non_finite (dec 2 0)" "\<not> non_finite (dec 6 2)" "\<not> non_finite (dec 1 1)"
  unfolding dec_2_0 dec_6_2 dec_1_1 by (simp_all add: non_finite_def)

section \<open>The claims\<close>

subsection \<open>Zero denominators and not-a-number arguments\<close>

lemma sharpe_nan:
  "is_nan r \<or> is_nan a \<or> is_nan d \<Longrightarrow> calculateSharpeRatio r a d = NaN"
  by (auto simp: is_nan_iff calculateSharpeRatio_def js_sub_NaN js_div_NaN)

lemma treynor_nan:
  "is_nan a \<or> is_nan m \<or> is_nan b \<Longrightarrow> calculateTreynorRatio a m b = NaN"
  by (auto simp: is_nan_iff calculateTreynorRatio_def js_sub_NaN js_div_NaN)

lemma sortino_nan:
  "is_nan r \<or> is_nan a \<or> is_nan d \<Longrightarrow> calculateSortinoRatio r a d = NaN"
  by (auto simp: is_nan_iff calculateSortinoRatio_def js_sub_NaN js_div_NaN)

lemma ev_ebitda_nan:
  "is_nan v \<or> is_nan e \<Longrightarrow> calculateEnterpriseValueToEBITDA v e = NaN"
  by (auto simp: is_nan_iff calculateEnterpriseValueToEBITDA_def js_div_NaN)

lemma price_to_book_nan:
  "is_nan p \<or> is_nan b \<Longrightarrow> calculatePriceToBook p b = NaN"
  by (auto simp: is_nan_iff calculatePriceToBook_def js_div_NaN)

lemma graham_nan:
  "is_nan e \<or> is_nan g \<or> is_nan y \<Longrightarrow> calculateGrahamNumber e g y = NaN"
  by (auto simp: is_nan_iff calculateGrahamNumber_def js_add_NaN js_mul_NaN js_div_NaN Let_def)

lemma capm_nan:
  "is_nan r \<or> is_nan m \<or> is_nan b \<Longrightarrow> calculateExpectedReturnCAPM r m b = NaN"
  by (auto simp: is_nan_iff calculateExpectedReturnCAPM_def js_add_NaN js_mul_NaN js_sub_NaN)

lemma altman_nan:
  "is_nan w \<or> is_nan e \<or> is_nan a \<or> is_nan v \<or> is_nan l \<Longrightarrow>
     calculateAltmanZScore w e a v l = NaN"
  by (auto simp: is_nan_iff calculateAltmanZScore_def js_add_NaN js_mul_NaN js_sub_NaN
      js_div_NaN Let_def)

lemma gordon_nan:
  "is_nan c \<or> is_nan g \<or> is_nan d \<Longrightarrow> calculateGordonIntrinsicValueDDM c g d = NaN"
  by (auto simp: is_nan_iff calculateGordonIntrinsicValueDDM_def js_sub_NaN js_div_NaN)

text \<open>With no liabilities the Altman score is not-a-number; with no assets it is not finite.\<close>

lemma altman_zero_liabilities:
  assumes "is_zero l"
  shows "calculateAltmanZScore w e a v l = NaN"
  unfolding calculateAltmanZScore_def Let_def
  by (intro div_non_finite_both non_finite_add disjI2 non_finite_div_zero assms)

lemma altman_zero_assets:
  assumes "is_zero a"
  shows "non_finite (calculateAltmanZScore w e a v l)"
  unfolding calculateAltmanZScore_def Let_def
  by (intro non_finite_div_left non_finite_add disjI1 non_finite_div_zero assms)

lemma gordon_finite:
  assumes "binary64 g" "binary64 d" "\<not> non_finite c" "\<not> non_finite g" "\<not> non_finite d"
  shows "calculateGordonIntrinsicValueDDM c g d = NaN \<longleftrightarrow> js_le d g"
proof (cases "js_le d g")
  case True
  then show ?thesis by (simp add: calculateGordonIntrinsicValueDDM_def)
next
  case False
  obtain s m e where d: "d = Fin s m e"
    using assms(5) by (cases d) (simp_all add: non_finite_def)
  obtain t n f where g: "g = Fin t n f"
    using assms(4) by (cases g) (simp_all add: non_finite_def)
  have "js_lt (Fin t n f) (Fin s m e) = Some True"
    using False unfolding d g js_le_finite by simp
  then have "\<not> is_zero (js_sub d g) \<and> js_sub d g \<noteq> NaN"
    using js_sub_positive assms(1,2) unfolding d g by blast
  then have "js_div c (js_sub d g) \<noteq> NaN"
    using js_div_finite_not_NaN assms(3) by blast
  then show ?thesis
    using False by (simp add: calculateGordonIntrinsicValueDDM_def)
qed


subsection \<open>Altman Z-Score\<close>

text \<open>
  C1, as stated, fails. The claim writes the numerator with each quotient taken before
  its weight, \<open>1.2*(workingCapital/totalAssets)\<close>; the source multiplies first,
  \<open>(1.2 * workingCapital) / totalAssets\<close>. On the inputs of the README (2000000, 1500000,
  10000000, 4000000, 6000000) the source returns 4.575000000000001 and the formula of
  the claim 4.574999999999999.
\<close>

theorem altman_order_counterexample:
  "calculateAltmanZScore (dec 2000000 0) (dec 1500000 0) (dec 10000000 0) (dec 4000000 0)
     (dec 6000000 0) \<noteq>
   altman_as_specified (dec 2000000 0) (dec 1500000 0) (dec 10000000 0) (dec 4000000 0)
     (dec 6000000 0)"
  unfolding altman_value altman_specified_value by simp

text \<open>
  C1, amended: for every five Numbers calculateAltmanZScore returns numerator / denominator,
  where numerator = (1.2*workingCapital)/totalAssets + (1.4*retainedEarnings)/totalAssets +
  (3.3*marketValueEquity)/totalLiabilities + (0.6*(totalAssets - totalLiabilities))/totalLiabilities,
  summed from the left, and denominator = marketValueEquity/totalLiabilities; there is no
  guard, and when totalAssets or totalLiabilities is a zero the result is an infinity or
  not-a-number.
\<close>

theorem altman_two_stage:
  "calculateAltmanZScore workingCapital retainedEarnings totalAssets marketValueEquity
       totalLiabilities =
     js_div
       (js_add
          (js_add
             (js_add (js_div (js_mul (dec 12 1) workingCapital) totalAssets)
                (js_div (js_mul (dec 14 1) retainedEarnings) totalAssets))
             (js_div (js_mul (dec 33 1) marketValueEquity) totalLiabilities))
          (js_div (js_mul (dec 6 1) (js_sub totalAssets totalLiabilities)) totalLiabilities))
       (js_div marketValueEquity totalLiabilities) \<and>
   (is_zero totalAssets \<or> is_zero totalLiabilities \<longrightarrow>
      non_finite
        (calculateAltmanZScore workingCapital retainedEarnings totalAssets marketValueEquity
           totalLiabilities))"
proof (intro conjI impI)
  show "calculateAltmanZScore workingCapital retainedEarnings totalAssets marketValueEquity
       totalLiabilities =
     js_div
       (js_add
          (js_add
             (js_add (js_div (js_mul (dec 12 1) workingCapital) totalAssets)
                (js_div (js_mul (dec 14 1) retainedEarnings) totalAssets))
             (js_div (js_mul (dec 33 1) marketValueEquity) totalLiabilities))
          (js_div (js_mul (dec 6 1) (js_sub totalAssets totalLiabilities)) totalLiabilities))
       (js_div marketValueEquity totalLiabilities)"
    unfolding calculateAltmanZScore_def Let_def by (rule refl)
next
  assume "is_zero totalAssets \<or> is_zero totalLiabilities"
  then show "non_finite
        (calculateAltmanZScore workingCapital retainedEarnings totalAssets marketValueEquity
           totalLiabilities)"
  proof
    assume "is_zero totalAssets"
    then show ?thesis by (rule altman_zero_assets)
  next
    assume "is_zero totalLiabilities"
    then show ?thesis by (simp add: altman_zero_liabilities non_finite_def)
  qed
qed

text \<open>With assets of 0 and every other argument 1 the score is not finite (it is Infinity).\<close>

theorem altman_two_stage_witness:
  "is_zero (dec 0 0) \<and>
   non_finite (calculateAltmanZScore (dec 1 0) (dec 1 0) (dec 0 0) (dec 1 0) (dec 1 0)) \<and>
   calculateAltmanZScore (dec 1 0) (dec 1 0) (dec 0 0) (dec 1 0) (dec 1 0) = Inf False"
proof -
  have h: "is_zero (dec 0 0)"
    by (simp add: dec_zero is_zero_def)
  show ?thesis
    using h altman_no_assets_value
      altman_two_stage [of "dec 1 0" "dec 1 0" "dec 0 0" "dec 1 0" "dec 1 0"]
    by blast
qed

subsection \<open>Zero denominators\<close>

text \<open>
  C2: each of calculateSharpeRatio, calculateTreynorRatio, calculateSortinoRatio,
  calculateEnterpriseValueToEBITDA, calculatePriceToBook and calculateGrahamNumber, called
  with a zero (\<open>+0\<close> or \<open>-0\<close>) for its guarded denominator, returns not-a-number, a value
  and not an exception; and \<open>===\<close> holds between not-a-number and no Number \<open>x\<close>,
  not-a-number itself included.
\<close>

theorem zero_denominator_returns_NaN:
  assumes "is_zero z"
  shows "calculateSharpeRatio r a z = NaN \<and>
         calculateTreynorRatio a m z = NaN \<and>
         calculateSortinoRatio r a z = NaN \<and>
         calculateEnterpriseValueToEBITDA v z = NaN \<and>
         calculatePriceToBook p z = NaN \<and>
         calculateGrahamNumber e g z = NaN \<and>
         is_nan NaN \<and> \<not> js_strict_eq NaN x \<and> \<not> js_strict_eq x NaN"
  using assms
  by (simp add: calculateSharpeRatio_def calculateTreynorRatio_def calculateSortinoRatio_def
      calculateEnterpriseValueToEBITDA_def calculatePriceToBook_def calculateGrahamNumber_def
      js_strict_eq_zero js_strict_eq_NaN is_nan_def)

text \<open>At the negative zero, with the other arguments taken from the README.\<close>

theorem zero_denominator_returns_NaN_witness:
  "is_zero (Fin True 0 (- 1074)) \<and>
   calculateSharpeRatio (dec 2 2) (dec 1 1) (Fin True 0 (- 1074)) = NaN \<and>
   calculateGrahamNumber (dec 5 0) (dec 5 2) (Fin True 0 (- 1074)) = NaN \<and>
   \<not> js_strict_eq NaN NaN"
proof -
  have h: "is_zero (Fin True 0 (- 1074))"
    by (simp add: is_zero_def)
  show ?thesis
    using h zero_denominator_returns_NaN [OF h, of "dec 2 2" "dec 1 1" _ _ _ "dec 5 0" "dec 5 2" NaN]
    by blast
qed

subsection \<open>Graham Number\<close>

text \<open>
  C3, as stated, fails at its example: calculateGrahamNumber(5, 0.05, 0.03) is
  830.0978857941996, more than 3 away from the 826.8 of the claim.
\<close>

theorem graham_example_counterexample:
  "\<not> near (calculateGrahamNumber (dec 5 0) (dec 5 2) (dec 3 2)) (8268 / 10) 3"
  unfolding graham_value by (simp add: near_eval)

text \<open>
  C3, amended: for every input whose earningsPerShare and bondYield are not zero,
  calculateGrahamNumber returns earningsPerShare * (1 + epsGrowthRate) * sqrt(22.5) / bondYield
  (the products from the left, then the quotient); in particular
  calculateGrahamNumber(5, 0.05, 0.03) is 830.0978857941996, within 0.05 of 830.1.
\<close>

theorem graham_formula:
  "(\<not> is_zero earningsPerShare \<and> \<not> is_zero bondYield \<longrightarrow>
      calculateGrahamNumber earningsPerShare epsGrowthRate bondYield =
        js_div
          (js_mul (js_mul earningsPerShare (js_add (dec 1 0) epsGrowthRate)) (js_sqrt (dec 225 1)))
          bondYield) \<and>
   calculateGrahamNumber (dec 5 0) (dec 5 2) (dec 3 2) = Fin False 7301618220983972 (- 43) \<and>
   near (Fin False 7301618220983972 (- 43)) (8301 / 10) (5 / 100)"
proof (intro conjI impI)
  assume "\<not> is_zero earningsPerShare \<and> \<not> is_zero bondYield"
  then show "calculateGrahamNumber earningsPerShare epsGrowthRate bondYield =
        js_div
          (js_mul (js_mul earningsPerShare (js_add (dec 1 0) epsGrowthRate)) (js_sqrt (dec 225 1)))
          bondYield"
    by (simp add: calculateGrahamNumber_def js_strict_eq_zero Let_def)
next
  show "calculateGrahamNumber (dec 5 0) (dec 5 2) (dec 3 2) = Fin False 7301618220983972 (- 43)"
    by (rule graham_value)
next
  show "near (Fin False 7301618220983972 (- 43)) (8301 / 10) (5 / 100)"
    by (simp add: near_eval)
qed

theorem graham_formula_witness:
  "\<not> is_zero (dec 5 0) \<and> \<not> is_zero (dec 3 2) \<and>
   calculateGrahamNumber (dec 5 0) (dec 5 2) (dec 3 2) =
     js_div (js_mul (js_mul (dec 5 0) (js_add (dec 1 0) (dec 5 2))) (js_sqrt (dec 225 1))) (dec 3 2)"
proof -
  have h: "\<not> is_zero (dec 5 0) \<and> \<not> is_zero (dec 3 2)"
    unfolding dec_5_0 dec_3_2 by (simp add: is_zero_def)
  show ?thesis
    using h graham_formula [of "dec 5 0" "dec 3 2" "dec 5 2"] by blast
qed

subsection \<open>Gordon growth model\<close>

text \<open>
  C4, as stated, fails twice. Not-a-number is returned also where discountRate <= growthRate
  is false: an infinite dividend over an infinite discount rate is not-a-number, as is any
  call with a not-a-number dividend. And calculateGordonIntrinsicValueDDM(2, 0.06, 0.1)
  is 49.99999999999999, which \<open>===\<close> does not equate with 50, because 0.1 - 0.06 is
  0.04000000000000001 in binary64.
\<close>

theorem gordon_counterexample:
  "\<not> js_le (Inf False) (dec 6 2) \<and>
   calculateGordonIntrinsicValueDDM (Inf False) (dec 6 2) (Inf False) = NaN \<and>
   \<not> js_le (dec 1 1) (dec 6 2) \<and>
   calculateGordonIntrinsicValueDDM NaN (dec 6 2) (dec 1 1) = NaN \<and>
   \<not> js_strict_eq (calculateGordonIntrinsicValueDDM (dec 2 0) (dec 6 2) (dec 1 1)) (dec 50 0)"
proof (intro conjI)
  show "\<not> js_le (Inf False) (dec 6 2)"
    unfolding dec_6_2 by (simp add: js_le_def)
  show "calculateGordonIntrinsicValueDDM (Inf False) (dec 6 2) (Inf False) = NaN"
    unfolding dec_6_2 by (simp add: calculateGordonIntrinsicValueDDM_def js_le_def js_sub_def)
  show "\<not> js_le (dec 1 1) (dec 6 2)"
    by (rule rates_0_1_0_06)
  show "calculateGordonIntrinsicValueDDM NaN (dec 6 2) (dec 1 1) = NaN"
    by (simp add: gordon_nan is_nan_def)
  show "\<not> js_strict_eq (calculateGordonIntrinsicValueDDM (dec 2 0) (dec 6 2) (dec 1 1)) (dec 50 0)"
    unfolding gordon_value dec_50_0 by (simp add: scaled_def signed_def)
qed

text \<open>
  C4, amended: calculateGordonIntrinsicValueDDM returns not-a-number whenever
  discountRate <= growthRate; in every other case (discountRate > growthRate, or a rate that
  is not-a-number) it returns currentDividend / (discountRate - growthRate); for finite
  arguments the result is not-a-number if and only if discountRate <= growthRate; in
  particular calculateGordonIntrinsicValueDDM(2, 0.06, 0.1) is 49.99999999999999, within
  1e-13 of 50, and every call with discountRate = 0.05 and growthRate = 0.06 returns
  not-a-number.
\<close>

theorem gordon_guard_and_quotient:
  "(js_le discountRate growthRate \<longrightarrow>
      calculateGordonIntrinsicValueDDM currentDividend growthRate discountRate = NaN) \<and>
   (\<not> js_le discountRate growthRate \<longrightarrow>
      calculateGordonIntrinsicValueDDM currentDividend growthRate discountRate =
        js_div currentDividend (js_sub discountRate growthRate)) \<and>
   (binary64 growthRate \<and> binary64 discountRate \<and> \<not> non_finite currentDividend \<and>
    \<not> non_finite growthRate \<and> \<not> non_finite discountRate \<longrightarrow>
      (calculateGordonIntrinsicValueDDM currentDividend growthRate discountRate = NaN \<longleftrightarrow>
       js_le discountRate growthRate)) \<and>
   calculateGordonIntrinsicValueDDM (dec 2 0) (dec 6 2) (dec 1 1) =
     Fin False 7036874417766399 (- 47) \<and>
   near (Fin False 7036874417766399 (- 47)) 50 (1 / 10 ^ 13) \<and>
   calculateGordonIntrinsicValueDDM currentDividend (dec 6 2) (dec 5 2) = NaN"
proof (intro conjI impI)
  assume "js_le discountRate growthRate"
  then show "calculateGordonIntrinsicValueDDM currentDividend growthRate discountRate = NaN"
    by (simp add: calculateGordonIntrinsicValueDDM_def)
next
  assume "\<not> js_le discountRate growthRate"
  then show "calculateGordonIntrinsicValueDDM currentDividend growthRate discountRate =
        js_div currentDividend (js_sub discountRate growthRate)"
    by (simp add: calculateGordonIntrinsicValueDDM_def)
next
  assume "binary64 growthRate \<and> binary64 discountRate \<and> \<not> non_finite currentDividend \<and>
    \<not> non_finite growthRate \<and> \<not> non_finite discountRate"
  then show "calculateGordonIntrinsicValueDDM currentDividend growthRate discountRate = NaN \<longleftrightarrow>
       js_le discountRate growthRate"
    using gordon_finite by blast
next
  show "calculateGordonIntrinsicValueDDM (dec 2 0) (dec 6 2) (dec 1 1) =
     Fin False 7036874417766399 (- 47)"
    by (rule gordon_value)
next
  show "near (Fin False 7036874417766399 (- 47)) 50 (1 / 10 ^ 13)"
    by (simp add: near_eval)
next
  show "calculateGordonIntrinsicValueDDM currentDividend (dec 6 2) (dec 5 2) = NaN"
    using rates_0_05_0_06 by (simp add: calculateGordonIntrinsicValueDDM_def)
qed

text \<open>The guard at rates 0.05 and 0.06; the quotient and the equivalence at 2, 0.06, 0.1.\<close>

theorem gordon_guard_and_quotient_witness:
  "js_le (dec 5 2) (dec 6 2) \<and>
   calculateGordonIntrinsicValueDDM (dec 2 0) (dec 6 2) (dec 5 2) = NaN \<and>
   \<not> js_le (dec 1 1) (dec 6 2) \<and>
   calculateGordonIntrinsicValueDDM (dec 2 0) (dec 6 2) (dec 1 1) =
     js_div (dec 2 0) (js_sub (dec 1 1) (dec 6 2)) \<and>
   binary64 (dec 6 2) \<and> binary64 (dec 1 1) \<and> \<not> non_finite (dec 2 0) \<and>
   \<not> non_finite (dec 6 2) \<and> \<not> non_finite (dec 1 1) \<and>
   calculateGordonIntrinsicValueDDM (dec 2 0) (dec 6 2) (dec 1 1) \<noteq> NaN"
proof -
  note h = rates_0_05_0_06 rates_0_1_0_06 dec_binary64 [of 6 2] dec_binary64 [of 1 1] rates_finite
  show ?thesis
    using h gordon_guard_and_quotient [of "dec 5 2" "dec 6 2" "dec 2 0"]
      gordon_guard_and_quotient [of "dec 1 1" "dec 6 2" "dec 2 0"]
    by blast
qed

subsection \<open>Sharpe, Treynor and Sortino ratios\<close>

text \<open>
  C5: for every input whose standardDeviation is not zero, calculateSharpeRatio returns
  (averageReturn - riskFreeRate) / standardDeviation; calculateSharpeRatio(0.02, 0.1, 0.15)
  is within 0.00005 of 0.5333.
\<close>

theorem sharpe_formula:
  "(\<not> is_zero standardDeviation \<longrightarrow>
      calculateSharpeRatio riskFreeRate averageReturn standardDeviation =
        js_div (js_sub averageReturn riskFreeRate) standardDeviation) \<and>
   near (calculateSharpeRatio (dec 2 2) (dec 1 1) (dec 15 2)) (5333 / 10000) (5 / 100000)"
proof (intro conjI impI)
  assume "\<not> is_zero standardDeviation"
  then show "calculateSharpeRatio riskFreeRate averageReturn standardDeviation =
        js_div (js_sub averageReturn riskFreeRate) standardDeviation"
    by (simp add: calculateSharpeRatio_def js_strict_eq_zero)
next
  show "near (calculateSharpeRatio (dec 2 2) (dec 1 1) (dec 15 2)) (5333 / 10000) (5 / 100000)"
    unfolding sharpe_value by (simp add: near_eval)
qed

theorem sharpe_formula_witness:
  "\<not> is_zero (dec 15 2) \<and>
   calculateSharpeRatio (dec 2 2) (dec 1 1) (dec 15 2) =
     js_div (js_sub (dec 1 1) (dec 2 2)) (dec 15 2)"
proof -
  have h: "\<not> is_zero (dec 15 2)"
    unfolding dec_15_2 by (simp add: is_zero_def)
  show ?thesis
    using h sharpe_formula [of "dec 15 2" "dec 2 2" "dec 1 1"] by blast
qed

text \<open>
  C6: for every input whose beta is not zero, calculateTreynorRatio returns
  (averageReturn - marketReturn) / beta, the excess over the market return;
  calculateTreynorRatio(0.1, 0.08, 1.2) is within 0.000005 of 0.01667.
\<close>

theorem treynor_formula:
  "(\<not> is_zero beta \<longrightarrow>
      calculateTreynorRatio averageReturn marketReturn beta =
        js_div (js_sub averageReturn marketReturn) beta) \<and>
   near (calculateTreynorRatio (dec 1 1) (dec 8 2) (dec 12 1)) (1667 / 100000) (5 / 1000000)"
proof (intro conjI impI)
  assume "\<not> is_zero beta"
  then show "calculateTreynorRatio averageReturn marketReturn beta =
        js_div (js_sub averageReturn marketReturn) beta"
    by (simp add: calculateTreynorRatio_def js_strict_eq_zero)
next
  show "near (calculateTreynorRatio (dec 1 1) (dec 8 2) (dec 12 1)) (1667 / 100000) (5 / 1000000)"
    unfolding treynor_value by (simp add: near_eval)
qed

theorem treynor_formula_witness:
  "\<not> is_zero (dec 12 1) \<and>
   calculateTreynorRatio (dec 1 1) (dec 8 2) (dec 12 1) =
     js_div (js_sub (dec 1 1) (dec 8 2)) (dec 12 1)"
proof -
  have h: "\<not> is_zero (dec 12 1)"
    unfolding dec_12_1 by (simp add: is_zero_def)
  show ?thesis
    using h treynor_formula [of "dec 12 1" "dec 1 1" "dec 8 2"] by blast
qed

text \<open>
  C9: calculateSortinoRatio and calculateSharpeRatio return the same Number on every
  triple of arguments.
\<close>

theorem sortino_is_sharpe:
  "calculateSortinoRatio r a d = calculateSharpeRatio r a d"
  by (simp add: calculateSortinoRatio_def calculateSharpeRatio_def)

subsection \<open>CAPM expected return\<close>

text \<open>
  C7: calculateExpectedReturnCAPM has no guard: on every triple it returns
  riskFreeRate + beta * (marketReturn - riskFreeRate); calculateExpectedReturnCAPM(0.02, 0.08, 1.2)
  is within 0.0005 of 0.092.
\<close>

theorem capm_formula:
  "calculateExpectedReturnCAPM riskFreeRate marketReturn beta =
     js_add riskFreeRate (js_mul beta (js_sub marketReturn riskFreeRate)) \<and>
   near (calculateExpectedReturnCAPM (dec 2 2) (dec 8 2) (dec 12 1)) (92 / 1000) (5 / 10000)"
proof
  show "calculateExpectedReturnCAPM riskFreeRate marketReturn beta =
     js_add riskFreeRate (js_mul beta (js_sub marketReturn riskFreeRate))"
    by (simp add: calculateExpectedReturnCAPM_def)
next
  show "near (calculateExpectedReturnCAPM (dec 2 2) (dec 8 2) (dec 12 1)) (92 / 1000) (5 / 10000)"
    unfolding capm_value by (simp add: near_eval)
qed

subsection \<open>Not-a-number arguments\<close>

text \<open>
  C10: each of the nine exported functions returns not-a-number as soon as one of its
  arguments is not-a-number.
\<close>

theorem nan_argument_gives_nan:
  "(is_nan r1 \<or> is_nan a1 \<or> is_nan d1 \<longrightarrow> calculateSharpeRatio r1 a1 d1 = NaN) \<and>
   (is_nan a2 \<or> is_nan m2 \<or> is_nan b2 \<longrightarrow> calculateTreynorRatio a2 m2 b2 = NaN) \<and>
   (is_nan r3 \<or> is_nan a3 \<or> is_nan d3 \<longrightarrow> calculateSortinoRatio r3 a3 d3 = NaN) \<and>
   (is_nan v4 \<or> is_nan e4 \<longrightarrow> calculateEnterpriseValueToEBITDA v4 e4 = NaN) \<and>
   (is_nan p5 \<or> is_nan b5 \<longrightarrow> calculatePriceToBook p5 b5 = NaN) \<and>
   (is_nan e6 \<or> is_nan g6 \<or> is_nan y6 \<longrightarrow> calculateGrahamNumber e6 g6 y6 = NaN) \<and>
   (is_nan r7 \<or> is_nan m7 \<or> is_nan b7 \<longrightarrow> calculateExpectedReturnCAPM r7 m7 b7 = NaN) \<and>
   (is_nan w8 \<or> is_nan e8 \<or> is_nan a8 \<or> is_nan v8 \<or> is_nan l8 \<longrightarrow>
      calculateAltmanZScore w8 e8 a8 v8 l8 = NaN) \<and>
   (is_nan c9 \<or> is_nan g9 \<or> is_nan d9 \<longrightarrow> calculateGordonIntrinsicValueDDM c9 g9 d9 = NaN)"
  by (intro conjI impI)
    (erule sharpe_nan treynor_nan sortino_nan ev_ebitda_nan price_to_book_nan graham_nan
      capm_nan altman_nan gordon_nan)+

text \<open>A not-a-number in the first argument of each function, the others from the README.\<close>

theorem nan_argument_gives_nan_witness:
  "is_nan NaN \<and>
   calculateSharpeRatio NaN (dec 1 1) (dec 15 2) = NaN \<and>
   calculateTreynorRatio NaN (dec 8 2) (dec 12 1) = NaN \<and>
   calculateSortinoRatio NaN (dec 1 1) (dec 12 2) = NaN \<and>
   calculateEnterpriseValueToEBITDA NaN (dec 1000000 0) = NaN \<and>
   calculatePriceToBook NaN (dec 25 0) = NaN \<and>
   calculateGrahamNumber NaN (dec 5 2) (dec 3 2) = NaN \<and>
   calculateExpectedReturnCAPM NaN (dec 8 2) (dec 12 1) = NaN \<and>
   calculateAltmanZScore NaN (dec 1500000 0) (dec 10000000 0) (dec 4000000 0) (dec 6000000 0) = NaN \<and>
   calculateGordonIntrinsicValueDDM NaN (dec 6 2) (dec 1 1) = NaN"
proof -
  have h: "is_nan NaN"
    by (simp add: is_nan_def)
  show ?thesis
    using h
      nan_argument_gives_nan [of NaN "dec 1 1" "dec 15 2" NaN "dec 8 2" "dec 12 1"
        NaN "dec 1 1" "dec 12 2" NaN "dec 1000000 0" NaN "dec 25 0"
        NaN "dec 5 2" "dec 3 2" NaN "dec 8 2" "dec 12 1"
        NaN "dec 1500000 0" "dec 10000000 0" "dec 4000000 0" "dec 6000000 0"
        NaN "dec 6 2" "dec 1 1"]
    by blast
qed

end
